theory Spec2Isabelle
  imports Main
begin

section \<open>Python primitives used by the scraper\<close>

text \<open>
  Python strings are modelled as HOL strings: a \<^typ>\<open>char\<close> stands for a code point
  in the range 0..255 (Latin-1).  The three string methods the program calls are
  written out on that range.
\<close>

definition py_isspace :: "char \<Rightarrow> bool" where
  \<comment> \<open>\<open>str.isspace\<close> on one code point: TAB, LF, VT, FF, CR, FS, GS, RS, US, SPACE, NEL, NBSP.\<close>
  "py_isspace c =
     (let n = (of_char c :: nat)
      in (9 \<le> n \<and> n \<le> 13) \<or> (28 \<le> n \<and> n \<le> 32) \<or> n = 133 \<or> n = 160)"

definition py_strip :: "string \<Rightarrow> string" where
  \<comment> \<open>\<open>s.strip()\<close>: leading and trailing whitespace removed.\<close>
  "py_strip s = rev (dropWhile py_isspace (rev (dropWhile py_isspace s)))"

definition py_lower_char :: "char \<Rightarrow> char" where
  \<comment> \<open>\<open>str.lower\<close> on one code point: A-Z and the Latin-1 capitals (all of 192..222 but the
      multiplication sign 215) move up by 32.\<close>
  "py_lower_char c =
     (let n = (of_char c :: nat)
      in if (65 \<le> n \<and> n \<le> 90) \<or> (192 \<le> n \<and> n \<le> 222 \<and> n \<noteq> 215)
         then char_of (n + 32) else c)"

definition py_lower :: "string \<Rightarrow> string" where
  "py_lower s = map py_lower_char s"

definition replace_space :: "string \<Rightarrow> string" where
  \<comment> \<open>\<open>s.replace(" ", "_")\<close>: every occurrence of the one-character string SPACE
      becomes an underscore.\<close>
  "replace_space s = map (\<lambda>c. if c = CHR '' '' then CHR ''_'' else c) s"

fun dec_digits :: "nat \<Rightarrow> string" where
  "dec_digits n =
     (if n < 10 then [char_of (48 + n)]
      else dec_digits (n div 10) @ [char_of (48 + n mod 10)])"

declare dec_digits.simps [simp del]

definition py_str :: "int \<Rightarrow> string" where
  \<comment> \<open>\<open>str(n)\<close> for an integer.\<close>
  "py_str n = (if n < 0 then CHR ''-'' # dec_digits (nat (- n)) else dec_digits (nat n))"

definition format_02d :: "int \<Rightarrow> string" where
  \<comment> \<open>The format specification \<open>02d\<close>: sign-aware zero padding to width 2.\<close>
  "format_02d n =
     (let s = py_str n in if length s < 2 then CHR ''0'' # s else s)"

definition path_join :: "string \<Rightarrow> string \<Rightarrow> string" where
  \<comment> \<open>\<open>os.path.join\<close> of two components, POSIX flavour.\<close>
  "path_join a b =
     (if b \<noteq> [] \<and> hd b = CHR ''/'' then b
      else if a = [] \<or> last a = CHR ''/'' then a @ b
      else a @ CHR ''/'' # b)"


section \<open>Name sanitizer\<close>

text \<open>
  \<open>sanitize_filename\<close> is imported from the third-party package \<open>pathvalidate\<close>; it is no
  code of the repository.  The program's functions therefore take it as the parameter
  \<open>sf\<close>, and the results hold for every such function, under the assumptions on it
  that a statement names.  The function \<open>sanitize_filename\<close> below is a model of the
  library function; it serves the concrete instances.
\<close>

definition make_safe_name :: "(string \<Rightarrow> string) \<Rightarrow> string \<Rightarrow> string" where
  "make_safe_name sf name =
     (let name = py_strip name;
          name = sf name;
          name = replace_space name;
          name = py_lower name
      in name)"

definition illegal_char :: "char \<Rightarrow> bool" where
  \<comment> \<open>Modelled from the spec: the characters that section 4.1 names as illegal in
      filesystem paths.  These are the control characters (0..31, 127), the path
      separators \<open>/\<close> (47) and \<open>\\<close> (92), and the reserved punctuation
      \<open>: * ? " < > |\<close> (58, 42, 63, 34, 60, 62, 124).\<close>
  "illegal_char c =
     (let n = (of_char c :: nat)
      in n < 32 \<or> n = 127 \<or> n = 47 \<or> n = 92
         \<or> n = 58 \<or> n = 42 \<or> n = 63 \<or> n = 34 \<or> n = 60 \<or> n = 62 \<or> n = 124)"


definition trim_name :: "string \<Rightarrow> string" where
  \<comment> \<open>Modelled from the spec: part of \<open>sanitize_filename\<close> below.  Leading and trailing
      spaces go, then trailing spaces and dots, unless the name is \<open>.\<close> or \<open>..\<close>.\<close>
  "trim_name name =
     (let name = dropWhile (\<lambda>c. c = CHR '' '') name;
          name = rev (dropWhile (\<lambda>c. c = CHR '' '') (rev name))
      in if name = ''.'' \<or> name = ''..'' then name
         else rev (dropWhile (\<lambda>c. c = CHR '' '' \<or> c = CHR ''.'') (rev name)))"

definition sanitize_filename :: "string \<Rightarrow> string" where
  \<comment> \<open>Modelled from the spec: the library function \<open>pathvalidate.sanitize_filename\<close> is
      absent from the sources.  Section 4.1 describes its effect as "Remove/replace
      characters illegal in filesystem paths (platform-safe subset: reject or strip
      control characters, path separators, reserved punctuation)", and sections 4.1 and 8
      require the empty string when nothing but whitespace is left.  The model removes
      the illegal characters; a name that is blank after that becomes the empty name;
      as the library does, a name is not left with a leading space or with a trailing
      space or dot (the names \<open>.\<close> and \<open>..\<close> are kept).  The library's suffix for the
      reserved device names and its truncation to 255 characters are not modelled.\<close>
  "sanitize_filename s =
     (let name = filter (\<lambda>c. \<not> illegal_char c) s in
      if py_strip name = [] then []
      else if name = ''.'' \<or> name = ''..'' then name
      else if last name = CHR '' '' \<or> last name = CHR ''.'' \<or> hd name = CHR '' ''
        then trim_name name
      else name)"


section \<open>Hierarchy reconstructor\<close>

text \<open>
  \<open>soup.find_all(["h2", "img"])\<close> yields the page's \<open>h2\<close> and \<open>img\<close> elements in document
  order.  An \<open>h2\<close> node carries the text \<open>node.get_text()\<close>, an \<open>img\<close> node the value of
  \<open>node.get("src")\<close>, which is \<open>None\<close> when the attribute is missing.
\<close>

datatype node = H2 string | Img "string option"

datatype cell = IntCell int | StrCell string

text \<open>
  The effects on the outside world are recorded as a trace of the calls that cause
  them: \<open>os.makedirs(path, exist_ok=True)\<close>, \<open>download_image(img_url, filepath)\<close> (which
  catches every exception of its own), and the writing of the two manifest files with
  their table contents.  Console output and \<open>time.sleep\<close> are left out, and the file
  system is taken to accept every call.
\<close>

datatype event =
    MakeDirs string
  | DownloadImage string string
  | WriteCsv string "cell list list"
  | WritePdf string "string list list"

datatype error = KeyError | RequestException | HTTPError

type_synonym row = "string \<times> string \<times> string"

record scrape_state =
  current_title :: "string option"
  image_counters :: "string \<rightharpoonup> int"
  titles_for_doctor :: "row list"
  titles_seen :: "string set"
  trace :: "event list"

definition init_state :: scrape_state where
  "init_state =
     \<lparr>current_title = None, image_counters = Map.empty, titles_for_doctor = [],
      titles_seen = {}, trace = []\<rparr>"

definition page_filename :: "int \<Rightarrow> string" where
  "page_filename page_num = ''page_'' @ format_02d page_num @ ''.jpg''"

text \<open>
  One iteration of the loop over the nodes.  \<open>uj\<close> is \<open>urllib.parse.urljoin\<close>, again a
  library function taken as a parameter.  The read of \<open>image_counters[current_title]\<close>
  raises \<open>KeyError\<close> when the key is missing.
\<close>

fun process_node ::
  "(string \<Rightarrow> string) \<Rightarrow> (string \<Rightarrow> string \<Rightarrow> string) \<Rightarrow> string \<Rightarrow> string \<Rightarrow> string
     \<Rightarrow> scrape_state \<Rightarrow> node \<Rightarrow> error + scrape_state" where
  "process_node sf uj section_url doctor_key doctor_folder s (H2 raw_title) =
     (let title_text = py_strip raw_title in
      if title_text = [] then Inr (s\<lparr>current_title := None\<rparr>)
      else
        let safe_title = make_safe_name sf title_text in
        if safe_title = [] then Inr (s\<lparr>current_title := None\<rparr>)
        else
          let title_folder = path_join doctor_folder safe_title;
              s1 = s\<lparr>current_title := Some title_text,
                     trace := trace s @ [MakeDirs title_folder],
                     image_counters := (image_counters s)(title_text \<mapsto> 0)\<rparr>
          in if safe_title \<notin> titles_seen s1
             then Inr (s1\<lparr>titles_seen := insert safe_title (titles_seen s1),
                          titles_for_doctor := titles_for_doctor s1 @
                            [(doctor_key, py_lower title_text, safe_title)]\<rparr>)
             else Inr s1)"
| "process_node sf uj section_url doctor_key doctor_folder s (Img src) =
     (case current_title s of
        None \<Rightarrow> Inr s
      | Some title \<Rightarrow>
          (case src of
             None \<Rightarrow> Inr s
           | Some v \<Rightarrow>
               if v = [] then Inr s
               else
                 (case image_counters s title of
                    None \<Rightarrow> Inl KeyError
                  | Some n \<Rightarrow>
                      let img_url = uj section_url v;
                          page_num = n + 1;
                          safe_title = make_safe_name sf title;
                          title_folder = path_join doctor_folder safe_title;
                          filename = page_filename page_num;
                          filepath = path_join title_folder filename
                      in Inr (s\<lparr>image_counters := (image_counters s)(title \<mapsto> page_num),
                                 trace := trace s @ [DownloadImage img_url filepath]\<rparr>))))"

text \<open>The loop: it stops at the first exception, keeping the state reached so far.\<close>

fun scrape_nodes ::
  "(string \<Rightarrow> string) \<Rightarrow> (string \<Rightarrow> string \<Rightarrow> string) \<Rightarrow> string \<Rightarrow> string \<Rightarrow> string
     \<Rightarrow> scrape_state \<Rightarrow> node list \<Rightarrow> (error \<times> scrape_state) + scrape_state" where
  "scrape_nodes sf uj section_url doctor_key doctor_folder s [] = Inr s"
| "scrape_nodes sf uj section_url doctor_key doctor_folder s (n # ns) =
     (case process_node sf uj section_url doctor_key doctor_folder s n of
        Inl e \<Rightarrow> Inl (e, s)
      | Inr s' \<Rightarrow> scrape_nodes sf uj section_url doctor_key doctor_folder s' ns)"

text \<open>
  The answer to \<open>requests.get(section_url, timeout=20)\<close>: no response at all (the call
  raises), or a status code together with the page, given as its node sequence.
\<close>

datatype response = NoResponse | Response int "node list"

definition setup_doctor_folder :: "string \<Rightarrow> string \<Rightarrow> string \<times> event list" where
  "setup_doctor_folder download_root doctor_key =
     (let doctor_folder = path_join download_root doctor_key
      in (doctor_folder, [MakeDirs doctor_folder]))"

text \<open>
  \<open>scrape_doctor_section\<close> returns the calls it made together with its result: the
  section's manifest rows, or the exception that left the function.
  \<open>raise_for_status\<close> raises for the status codes 400..599.
\<close>

definition scrape_doctor_section ::
  "(string \<Rightarrow> string) \<Rightarrow> (string \<Rightarrow> string \<Rightarrow> string) \<Rightarrow> (string \<Rightarrow> response)
     \<Rightarrow> string \<Rightarrow> string \<Rightarrow> string \<Rightarrow> event list \<times> (error + row list)" where
  "scrape_doctor_section sf uj http section_url doctor_key download_root =
     (case setup_doctor_folder download_root doctor_key of
        (doctor_folder, ev) \<Rightarrow>
          (case http section_url of
             NoResponse \<Rightarrow> (ev, Inl RequestException)
           | Response status nodes \<Rightarrow>
               if 400 \<le> status \<and> status < 600 then (ev, Inl HTTPError)
               else
                 (case scrape_nodes sf uj section_url doctor_key doctor_folder init_state nodes of
                    Inl (e, s) \<Rightarrow> (ev @ trace s, Inl e)
                  | Inr s \<Rightarrow> (ev @ trace s, Inr (titles_for_doctor s)))))"


section \<open>Manifest writer\<close>

fun csv_rows :: "int \<Rightarrow> row list \<Rightarrow> cell list list" where
  \<comment> \<open>The loop of \<open>create_csv\<close>, with the value of \<open>counter\<close> before the iteration.\<close>
  "csv_rows counter [] = []"
| "csv_rows counter ((doctor_key, title_lower, title_safe) # rest) =
     (let counter = counter + 1
      in [IntCell counter, StrCell doctor_key, StrCell title_lower, StrCell title_safe]
         # csv_rows counter rest)"

definition create_csv :: "row list \<Rightarrow> string \<Rightarrow> event" where
  "create_csv all_rows csv_path =
     WriteCsv csv_path
       ([StrCell ''index'', StrCell ''doctor'', StrCell ''title_lower'', StrCell ''title_safe'']
        # csv_rows 0 all_rows)"

fun pdf_rows :: "int \<Rightarrow> row list \<Rightarrow> string list list" where
  "pdf_rows counter [] = []"
| "pdf_rows counter ((doctor_key, title_lower, title_safe) # rest) =
     (let counter = counter + 1
      in [py_str counter, doctor_key, title_lower, title_safe] # pdf_rows counter rest)"

definition create_pdf :: "row list \<Rightarrow> string \<Rightarrow> event" where
  "create_pdf all_rows pdf_path =
     WritePdf pdf_path
       ([''#'', ''Doctor'', ''Title (lower)'', ''Title (safe)''] # pdf_rows 0 all_rows)"


section \<open>Orchestrator\<close>

definition DOCTOR_SECTIONS :: "(string \<times> string) list" where
  "DOCTOR_SECTIONS =
     [(''first_doctor'', ''https://classicdoctorwhocomics.wordpress.com/first-doctor-comics/''),
      (''second_doctor'', ''https://classicdoctorwhocomics.wordpress.com/second-doctor-comics/''),
      (''third_doctor'', ''https://classicdoctorwhocomics.wordpress.com/third-doctor-comics/''),
      (''fourth_doctor'', ''https://classicdoctorwhocomics.wordpress.com/fourth-doctor-comics/'')]"

definition get_download_root :: "string \<Rightarrow> string \<times> event list" where
  \<comment> \<open>\<open>home\<close> is the value of \<open>os.path.expanduser("~")\<close>.\<close>
  "get_download_root home =
     (let desktop = path_join home ''Desktop'';
          download_root = path_join desktop ''comic_images''
      in (download_root, [MakeDirs download_root]))"

definition choose_doctor_keys :: "int option \<Rightarrow> string list" where
  \<comment> \<open>The argument is the outcome of \<open>int(choice)\<close> for the line typed at the prompt:
      \<open>None\<close> when \<open>int\<close> raises \<open>ValueError\<close>.\<close>
  "choose_doctor_keys parsed =
     (let options = map fst DOCTOR_SECTIONS in
      case parsed of
        None \<Rightarrow> []
      | Some num \<Rightarrow>
          if num = int (length options) + 1 then options
          else if 1 \<le> num \<and> num \<le> int (length options) then [options ! nat (num - 1)]
          else [])"

text \<open>
  The loop of \<open>main\<close> over the chosen keys.  An exception of \<open>scrape_doctor_section\<close>
  is not caught anywhere, so it ends the loop and the program.
\<close>

fun scrape_sections ::
  "(string \<Rightarrow> string) \<Rightarrow> (string \<Rightarrow> string \<Rightarrow> string) \<Rightarrow> (string \<Rightarrow> response) \<Rightarrow> string
     \<Rightarrow> event list \<Rightarrow> row list \<Rightarrow> string list \<Rightarrow> event list \<times> (error + row list)" where
  "scrape_sections sf uj http download_root ev all_rows [] = (ev, Inr all_rows)"
| "scrape_sections sf uj http download_root ev all_rows (key # keys) =
     (case map_of DOCTOR_SECTIONS key of
        None \<Rightarrow> scrape_sections sf uj http download_root ev all_rows keys
      | Some url \<Rightarrow>
          if url = [] then scrape_sections sf uj http download_root ev all_rows keys
          else
            (case scrape_doctor_section sf uj http url key download_root of
               (ev', Inl e) \<Rightarrow> (ev @ ev', Inl e)
             | (ev', Inr titles) \<Rightarrow>
                 scrape_sections sf uj http download_root (ev @ ev') (all_rows @ titles) keys))"

text \<open>
  \<open>main\<close> returns the trace of the whole run and the exception that ended it, if any.
\<close>

definition main ::
  "(string \<Rightarrow> string) \<Rightarrow> (string \<Rightarrow> string \<Rightarrow> string) \<Rightarrow> (string \<Rightarrow> response) \<Rightarrow> string
     \<Rightarrow> int option \<Rightarrow> event list \<times> error option" where
  "main sf uj http home parsed =
     (case get_download_root home of
        (download_root, ev0) \<Rightarrow>
          (let doctor_keys = choose_doctor_keys parsed in
           if doctor_keys = [] then (ev0, None)
           else
             (case scrape_sections sf uj http download_root ev0 [] doctor_keys of
                (ev, Inl e) \<Rightarrow> (ev, Some e)
              | (ev, Inr all_rows) \<Rightarrow>
                  (let csv_path = path_join download_root ''titles_list.csv'';
                       pdf_path = path_join download_root ''titles_list.pdf''
                   in if all_rows \<noteq> []
                      then (ev @ [create_csv all_rows csv_path, create_pdf all_rows pdf_path],
                            None)
                      else (ev, None)))))"


section \<open>Notions used to state the properties\<close>

definition is_manifest_write :: "event \<Rightarrow> bool" where
  "is_manifest_write e =
     (case e of WriteCsv p t \<Rightarrow> True | WritePdf p t \<Rightarrow> True | _ \<Rightarrow> False)"

definition manifest_writes :: "event list \<Rightarrow> event list" where
  \<comment> \<open>The writes of the CSV and PDF files within a trace.\<close>
  "manifest_writes ev = filter is_manifest_write ev"

definition title_has_counter :: "scrape_state \<Rightarrow> bool" where
  \<comment> \<open>The current title, when there is one, is a key of \<open>image_counters\<close>.\<close>
  "title_has_counter s =
     (case current_title s of None \<Rightarrow> True | Some t \<Rightarrow> image_counters s t \<noteq> None)"

fun usable_srcs :: "string option list \<Rightarrow> string list" where
  \<comment> \<open>The \<open>src\<close> values that pass the test \<open>if not src\<close>: present and not empty.\<close>
  "usable_srcs [] = []"
| "usable_srcs (None # rest) = usable_srcs rest"
| "usable_srcs (Some v # rest) = (if v = [] then usable_srcs rest else v # usable_srcs rest)"

definition page_downloads ::
  "(string \<Rightarrow> string \<Rightarrow> string) \<Rightarrow> string \<Rightarrow> string \<Rightarrow> string list \<Rightarrow> event list" where
  \<comment> \<open>The downloads of the images \<open>vs\<close> into one title folder, numbered 1, 2, 3, ...\<close>
  "page_downloads uj section_url title_folder vs =
     map (\<lambda>(k, v). DownloadImage (uj section_url v)
                      (path_join title_folder (page_filename (int k))))
       (enumerate 1 vs)"

fun downloads_from ::
  "(string \<Rightarrow> string \<Rightarrow> string) \<Rightarrow> string \<Rightarrow> string \<Rightarrow> int \<Rightarrow> string list \<Rightarrow> event list" where
  \<comment> \<open>The same, starting from the counter value \<open>n\<close>.\<close>
  "downloads_from uj section_url title_folder n [] = []"
| "downloads_from uj section_url title_folder n (v # vs) =
     DownloadImage (uj section_url v) (path_join title_folder (page_filename (n + 1)))
     # downloads_from uj section_url title_folder (n + 1) vs"

fun download_paths :: "event list \<Rightarrow> string list" where
  \<comment> \<open>The file paths of the downloads in a trace.\<close>
  "download_paths [] = []"
| "download_paths (DownloadImage u p # ev) = p # download_paths ev"
| "download_paths (e # ev) = download_paths ev"

definition rows_consistent :: "scrape_state \<Rightarrow> bool" where
  \<comment> \<open>\<open>titles_seen\<close> holds exactly the safe names of the rows, each of them once.\<close>
  "rows_consistent s =
     (titles_seen s = set (map (snd \<circ> snd) (titles_for_doctor s))
      \<and> distinct (map (snd \<circ> snd) (titles_for_doctor s)))"

fun heading_texts :: "node list \<Rightarrow> string list" where
  \<comment> \<open>The texts of the \<open>h2\<close> nodes, in document order.\<close>
  "heading_texts [] = []"
| "heading_texts (H2 raw # ns) = raw # heading_texts ns"
| "heading_texts (Img src # ns) = heading_texts ns"

definition sanitized_headings :: "(string \<Rightarrow> string) \<Rightarrow> node list \<Rightarrow> string list" where
  \<comment> \<open>The non-empty sanitized heading values, in document order, repetitions included.\<close>
  "sanitized_headings sf nodes =
     filter (\<lambda>n. n \<noteq> []) (map (make_safe_name sf) (heading_texts nodes))"

definition first_seen_order :: "'a list \<Rightarrow> 'a list" where
  \<comment> \<open>The distinct elements of a list in the order of their first occurrences
      (\<open>remdups\<close> keeps the last occurrence of each element, hence the reversals).\<close>
  "first_seen_order xs = rev (remdups (rev xs))"

definition first_heading :: "(string \<Rightarrow> string) \<Rightarrow> node list \<Rightarrow> string \<Rightarrow> string" where
  \<comment> \<open>The text of the first heading whose sanitized value is \<open>n\<close>.\<close>
  "first_heading sf nodes n =
     (case find (\<lambda>raw. make_safe_name sf raw = n) (heading_texts nodes) of
        None \<Rightarrow> [] | Some raw \<Rightarrow> raw)"

definition expected_rows :: "(string \<Rightarrow> string) \<Rightarrow> string \<Rightarrow> node list \<Rightarrow> row list" where
  \<comment> \<open>The manifest rows as the specification describes them: one row for each distinct
      non-empty sanitized heading value, in first-seen order, with the lower-cased
      trimmed text of the first heading that has this value.\<close>
  "expected_rows sf doctor_key nodes =
     map (\<lambda>n. (doctor_key, py_lower (py_strip (first_heading sf nodes n)), n))
       (first_seen_order (sanitized_headings sf nodes))"

definition clean_char :: "char \<Rightarrow> char" where
  \<comment> \<open>What \<open>replace(" ", "_")\<close> followed by \<open>lower()\<close> does to one character.\<close>
  "clean_char c = py_lower_char (if c = CHR '' '' then CHR ''_'' else c)"

section \<open>The manifest writer numbers the rows by position\<close>

lemma csv_rows_enumerate:
  "csv_rows c rows =
     map (\<lambda>(i, (d, tl, ts)). [IntCell (c + int i + 1), StrCell d, StrCell tl, StrCell ts])
       (enumerate 0 rows)"
proof (induction rows arbitrary: c)
  case Nil
  show ?case by simp
next
  case (Cons r rows)
  obtain d tl ts where r: "r = (d, tl, ts)" by (cases r) auto
  have shift: "enumerate (Suc 0) rows = map (\<lambda>(i, x). (Suc i, x)) (enumerate 0 rows)"
    by (simp add: enumerate_eq_zip map_Suc_upt[symmetric] zip_map1 del: upt_Suc)
  show ?case
    by (simp add: r Cons.IH shift Let_def case_prod_unfold add.assoc add.commute)
qed

lemma csv_rows_append:
  "csv_rows c (xs @ ys) = csv_rows c xs @ csv_rows (c + int (length xs)) ys"
  by (induction xs arbitrary: c) (auto simp: Let_def add.assoc)

lemma csv_rows_ordinal_column:
  "map hd (csv_rows c rows) = map (\<lambda>i. IntCell (c + int i)) [1..<Suc (length rows)]"
proof (induction rows arbitrary: c)
  case Nil
  show ?case by simp
next
  case (Cons r rows)
  obtain d tl ts where r: "r = (d, tl, ts)" by (cases r) auto
  have "[1..<Suc (length (r # rows))] = 1 # map Suc [1..<Suc (length rows)]"
    by (simp add: upt_conv_Cons map_Suc_upt del: upt_Suc)
  then show ?case
    by (simp add: r Cons.IH Let_def comp_def add.assoc del: upt_Suc)
qed

text \<open>
  C7.  The rows reach \<open>create_csv\<close> as triples without an ordinal.  The writer numbers
  the row at position \<open>i\<close> (counted from 0) of the list it is given with \<open>i + 1\<close>: the
  ordinal column reads 1, 2, ..., N, and the rows of a later section continue the
  numbering where the rows of the earlier sections stopped.
\<close>

theorem create_csv_ordinals:
  "create_csv all_rows csv_path =
     WriteCsv csv_path
       ([StrCell ''index'', StrCell ''doctor'', StrCell ''title_lower'', StrCell ''title_safe'']
        # map (\<lambda>(i, (d, tl, ts)). [IntCell (int i + 1), StrCell d, StrCell tl, StrCell ts])
            (enumerate 0 all_rows))
   \<and> map hd (csv_rows 0 all_rows) = map (\<lambda>i. IntCell (int i)) [1..<Suc (length all_rows)]
   \<and> csv_rows 0 (rows1 @ rows2) = csv_rows 0 rows1 @ csv_rows (int (length rows1)) rows2"
  using csv_rows_enumerate[of 0 all_rows] csv_rows_ordinal_column[of 0 all_rows]
    csv_rows_append[of 0 rows1 rows2]
  by (simp add: create_csv_def)


section \<open>The scraper writes no manifest file\<close>

lemma process_node_manifest_writes:
  "process_node sf uj url key df s n = Inr s' \<Longrightarrow>
     manifest_writes (trace s') = manifest_writes (trace s)"
  by (cases n)
     (auto simp: manifest_writes_def is_manifest_write_def Let_def
           split: if_splits option.splits)

lemma scrape_nodes_manifest_writes:
  "scrape_nodes sf uj url key df s ns = r \<Longrightarrow>
     manifest_writes (trace (case r of Inl (e, s') \<Rightarrow> s' | Inr s' \<Rightarrow> s'))
       = manifest_writes (trace s)"
proof (induction ns arbitrary: s)
  case Nil
  then show ?case by auto
next
  case (Cons n ns)
  show ?case
  proof (cases "process_node sf uj url key df s n")
    case (Inl e)
    with Cons.prems show ?thesis by auto
  next
    case (Inr s1)
    with Cons.prems have "scrape_nodes sf uj url key df s1 ns = r" by simp
    from Cons.IH[OF this] process_node_manifest_writes[OF Inr] show ?thesis by simp
  qed
qed

lemma scrape_doctor_section_manifest_writes:
  "manifest_writes (fst (scrape_doctor_section sf uj http url key root)) = []"
proof (cases "http url")
  case NoResponse
  then show ?thesis
    by (simp add: scrape_doctor_section_def setup_doctor_folder_def manifest_writes_def
        is_manifest_write_def Let_def)
next
  case (Response status nodes)
  show ?thesis
    using scrape_nodes_manifest_writes[OF refl, of sf uj url key "path_join root key"
        init_state nodes]
    by (auto simp: Response scrape_doctor_section_def setup_doctor_folder_def init_state_def
        Let_def manifest_writes_def is_manifest_write_def split: sum.splits prod.splits)
qed

lemma scrape_sections_manifest_writes:
  "manifest_writes (fst (scrape_sections sf uj http root ev rows keys)) = manifest_writes ev"
proof (induction keys arbitrary: ev rows)
  case Nil
  show ?case by simp
next
  case (Cons key keys)
  show ?case
  proof (cases "map_of DOCTOR_SECTIONS key")
    case None
    then show ?thesis by (simp add: Cons.IH)
  next
    case (Some url)
    obtain ev' res where sec: "scrape_doctor_section sf uj http url key root = (ev', res)"
      by (cases "scrape_doctor_section sf uj http url key root") auto
    have ev': "manifest_writes ev' = []"
      using scrape_doctor_section_manifest_writes[of sf uj http url key root] by (simp add: sec)
    have app: "manifest_writes (ev @ ev') = manifest_writes ev"
      using ev' by (simp add: manifest_writes_def)
    show ?thesis
      by (cases res) (simp_all add: Some sec Cons.IH app)
  qed
qed

lemma scrape_sections_append:
  "scrape_sections sf uj http root ev rows (ks1 @ ks2) =
     (case scrape_sections sf uj http root ev rows ks1 of
        (ev1, Inl e) \<Rightarrow> (ev1, Inl e)
      | (ev1, Inr rows1) \<Rightarrow> scrape_sections sf uj http root ev1 rows1 ks2)"
  by (induction ks1 arbitrary: ev rows)
     (auto split: option.splits prod.splits sum.splits)


section \<open>Invalid selection\<close>

lemma choose_doctor_keys_invalid:
  "parsed = None \<or> (\<exists>num. parsed = Some num \<and> (num < 1 \<or> 5 < num)) \<Longrightarrow>
     choose_doctor_keys parsed = []"
  by (auto simp: choose_doctor_keys_def DOCTOR_SECTIONS_def)

text \<open>
  C6, as the code has it.  \<open>main\<close> calls \<open>get_download_root\<close> before it asks for the
  selection, so the download root is created in every run.  For an input that is not a
  number, or a number outside 1..5, this is the only effect: no section or title folder
  is made, nothing is fetched, and neither manifest file is written; the run ends
  without an exception.
\<close>

theorem invalid_selection_only_creates_download_root:
  assumes "parsed = None \<or> (\<exists>num. parsed = Some num \<and> (num < 1 \<or> 5 < num))"
  shows "main sf uj http home parsed =
           ([MakeDirs (path_join (path_join home ''Desktop'') ''comic_images'')], None)"
  using choose_doctor_keys_invalid[OF assms]
  by (simp add: main_def get_download_root_def Let_def)

theorem invalid_selection_only_creates_download_root_witness:
  "main sanitize_filename (\<lambda>base u. base @ u) (\<lambda>u. Response 200 [H2 ''A'']) ''/home/user''
     (Some 7) = ([MakeDirs ''/home/user/Desktop/comic_images''], None)"
  using invalid_selection_only_creates_download_root
    [of "Some 7" sanitize_filename "\<lambda>base u. base @ u" "\<lambda>u. Response 200 [H2 ''A'']"
        "''/home/user''"]
  by (simp add: path_join_def)

text \<open>
  The claim as the specification states it (no folder is created) fails: for a line
  that is not a number the trace of the run holds the creation of the download root.
\<close>

theorem invalid_selection_creates_a_folder:
  "fst (main sanitize_filename (\<lambda>base u. base @ u) (\<lambda>u. NoResponse) ''/home/user'' None)
     = [MakeDirs ''/home/user/Desktop/comic_images'']"
  by (simp add: main_def get_download_root_def choose_doctor_keys_def path_join_def Let_def)


section \<open>Empty result\<close>

text \<open>
  C8.  When the loop over the selected sections ends with an empty row list, \<open>main\<close>
  returns normally with the trace of that loop, and the trace holds no write of the
  CSV or the PDF file.
\<close>

theorem empty_result_skips_manifest:
  assumes "scrape_sections sf uj http (fst (get_download_root home))
             (snd (get_download_root home)) [] (choose_doctor_keys parsed) = (ev, Inr [])"
  shows "main sf uj http home parsed = (ev, None) \<and> manifest_writes ev = []"
proof -
  have mw: "manifest_writes ev = []"
    using scrape_sections_manifest_writes[of sf uj http "fst (get_download_root home)"
        "snd (get_download_root home)" "[]" "choose_doctor_keys parsed"] assms
    by (simp add: get_download_root_def manifest_writes_def is_manifest_write_def Let_def)
  have "main sf uj http home parsed = (ev, None)"
  proof (cases "choose_doctor_keys parsed = []")
    case True
    with assms show ?thesis by (simp add: main_def get_download_root_def Let_def)
  next
    case False
    with assms show ?thesis by (simp add: main_def get_download_root_def Let_def)
  qed
  with mw show ?thesis by simp
qed

theorem empty_result_skips_manifest_witness:
  "scrape_sections sanitize_filename (\<lambda>base u. base @ u) (\<lambda>u. Response 200 [Img (Some ''x.jpg'')])
     (fst (get_download_root ''/home/user'')) (snd (get_download_root ''/home/user'')) []
     (choose_doctor_keys (Some 1))
   = ([MakeDirs ''/home/user/Desktop/comic_images'',
       MakeDirs ''/home/user/Desktop/comic_images/first_doctor''], Inr [])
   \<and> main sanitize_filename (\<lambda>base u. base @ u) (\<lambda>u. Response 200 [Img (Some ''x.jpg'')])
       ''/home/user'' (Some 1)
     = ([MakeDirs ''/home/user/Desktop/comic_images'',
         MakeDirs ''/home/user/Desktop/comic_images/first_doctor''], None)"
proof -
  have h: "scrape_sections sanitize_filename (\<lambda>base u. base @ u)
       (\<lambda>u. Response 200 [Img (Some ''x.jpg'')])
       (fst (get_download_root ''/home/user'')) (snd (get_download_root ''/home/user'')) []
       (choose_doctor_keys (Some 1))
     = ([MakeDirs ''/home/user/Desktop/comic_images'',
         MakeDirs ''/home/user/Desktop/comic_images/first_doctor''], Inr [])"
    by code_simp
  from empty_result_skips_manifest[OF h] h show ?thesis by blast
qed


section \<open>Failure of a section page\<close>

lemma DOCTOR_SECTIONS_nonempty_url:
  "map_of DOCTOR_SECTIONS key = Some url \<Longrightarrow> url \<noteq> []"
  by (auto simp: DOCTOR_SECTIONS_def split: if_splits)

lemma scrape_doctor_section_fetch_failure:
  assumes "http url = NoResponse \<or> (\<exists>status nodes. http url = Response status nodes \<and> 400 \<le> status \<and> status < 600)"
  shows "scrape_doctor_section sf uj http url key root =
           ([MakeDirs (path_join root key)],
            Inl (if http url = NoResponse then RequestException else HTTPError))"
  using assms
  by (auto simp: scrape_doctor_section_def setup_doctor_folder_def Let_def)

text \<open>
  C5, as the code has it.  \<open>scrape_doctor_section\<close> lets the exception of
  \<open>requests.get\<close> or \<open>raise_for_status\<close> escape, and the loop of \<open>main\<close> has no handler.
  When the page of a selected section cannot be fetched (no response, or a status in
  400..599) while the sections before it went through, the run ends with that
  exception right after the folder of the failing section was made: the sections after
  it are not visited, and neither manifest file is written, whatever rows the earlier
  sections produced.
\<close>

theorem section_fetch_failure_aborts_run:
  assumes keys: "choose_doctor_keys parsed = ks1 @ key # ks2"
    and url: "map_of DOCTOR_SECTIONS key = Some url"
    and fails: "http url = NoResponse \<or>
                (\<exists>status nodes. http url = Response status nodes \<and> 400 \<le> status \<and> status < 600)"
    and before: "scrape_sections sf uj http (fst (get_download_root home))
                   (snd (get_download_root home)) [] ks1 = (ev1, Inr rows1)"
  shows "main sf uj http home parsed =
           (ev1 @ [MakeDirs (path_join (fst (get_download_root home)) key)],
            Some (if http url = NoResponse then RequestException else HTTPError))
         \<and> manifest_writes (fst (main sf uj http home parsed)) = []"
proof -
  let ?root = "fst (get_download_root home)"
  let ?ev0 = "snd (get_download_root home)"
  let ?err = "if http url = NoResponse then RequestException else HTTPError"
  have sec: "scrape_doctor_section sf uj http url key ?root = ([MakeDirs (path_join ?root key)], Inl ?err)"
    using scrape_doctor_section_fetch_failure[of http url sf uj key ?root] fails by blast
  have step: "scrape_sections sf uj http ?root ev1 rows1 (key # ks2) =
                (ev1 @ [MakeDirs (path_join ?root key)], Inl ?err)"
    using url DOCTOR_SECTIONS_nonempty_url[OF url] sec by simp
  have loop: "scrape_sections sf uj http ?root ?ev0 [] (ks1 @ key # ks2) =
                (ev1 @ [MakeDirs (path_join ?root key)], Inl ?err)"
    by (simp only: scrape_sections_append before step prod.case sum.case)
  have m: "main sf uj http home parsed = (ev1 @ [MakeDirs (path_join ?root key)], Some ?err)"
    using loop keys by (simp add: main_def get_download_root_def Let_def)
  have "manifest_writes ev1 = manifest_writes ?ev0"
    using scrape_sections_manifest_writes[of sf uj http ?root ?ev0 "[]" ks1] before by simp
  then have "manifest_writes ev1 = []"
    by (simp add: get_download_root_def Let_def manifest_writes_def is_manifest_write_def)
  then have "manifest_writes (ev1 @ [MakeDirs (path_join ?root key)]) = []"
    by (simp add: manifest_writes_def is_manifest_write_def)
  with m show ?thesis by simp
qed

theorem section_fetch_failure_aborts_run_witness:
  "choose_doctor_keys (Some 5) = [''first_doctor'', ''second_doctor''] @ ''third_doctor'' # [''fourth_doctor'']
   \<and> map_of DOCTOR_SECTIONS ''third_doctor''
       = Some ''https://classicdoctorwhocomics.wordpress.com/third-doctor-comics/''
   \<and> (\<lambda>u. if u = ''https://classicdoctorwhocomics.wordpress.com/third-doctor-comics/''
            then NoResponse else Response 200 [H2 ''A''])
        ''https://classicdoctorwhocomics.wordpress.com/third-doctor-comics/'' = NoResponse
   \<and> main sanitize_filename (\<lambda>base u. base @ u)
       (\<lambda>u. if u = ''https://classicdoctorwhocomics.wordpress.com/third-doctor-comics/''
            then NoResponse else Response 200 [H2 ''A''])
       ''/home/user'' (Some 5)
     = ([MakeDirs ''/home/user/Desktop/comic_images'',
         MakeDirs ''/home/user/Desktop/comic_images/first_doctor'',
         MakeDirs ''/home/user/Desktop/comic_images/first_doctor/a'',
         MakeDirs ''/home/user/Desktop/comic_images/second_doctor'',
         MakeDirs ''/home/user/Desktop/comic_images/second_doctor/a'',
         MakeDirs ''/home/user/Desktop/comic_images/third_doctor''],
        Some RequestException)"
proof -
  let ?url3 = "''https://classicdoctorwhocomics.wordpress.com/third-doctor-comics/''"
  let ?http = "\<lambda>u. if u = ?url3 then NoResponse else Response 200 [H2 ''A'']"
  have keys: "choose_doctor_keys (Some 5)
                = [''first_doctor'', ''second_doctor''] @ ''third_doctor'' # [''fourth_doctor'']"
    by code_simp
  have url: "map_of DOCTOR_SECTIONS ''third_doctor'' = Some ?url3"
    by code_simp
  have no: "?http ?url3 = NoResponse" by simp
  then have fails: "?http ?url3 = NoResponse \<or>
       (\<exists>status nodes. ?http ?url3 = Response status nodes \<and> 400 \<le> status \<and> status < 600)"
    by (rule disjI1)
  have before: "scrape_sections sanitize_filename (\<lambda>base u. base @ u) ?http
        (fst (get_download_root ''/home/user'')) (snd (get_download_root ''/home/user'')) []
        [''first_doctor'', ''second_doctor'']
      = ([MakeDirs ''/home/user/Desktop/comic_images'',
          MakeDirs ''/home/user/Desktop/comic_images/first_doctor'',
          MakeDirs ''/home/user/Desktop/comic_images/first_doctor/a'',
          MakeDirs ''/home/user/Desktop/comic_images/second_doctor'',
          MakeDirs ''/home/user/Desktop/comic_images/second_doctor/a''],
         Inr [(''first_doctor'', ''a'', ''a''), (''second_doctor'', ''a'', ''a'')])"
    by code_simp
  have root: "path_join (fst (get_download_root ''/home/user'')) ''third_doctor''
                = ''/home/user/Desktop/comic_images/third_doctor''"
    by code_simp
  from section_fetch_failure_aborts_run[where http = ?http, OF keys url fails before]
  have "main sanitize_filename (\<lambda>base u. base @ u) ?http ''/home/user'' (Some 5)
     = ([MakeDirs ''/home/user/Desktop/comic_images'',
         MakeDirs ''/home/user/Desktop/comic_images/first_doctor'',
         MakeDirs ''/home/user/Desktop/comic_images/first_doctor/a'',
         MakeDirs ''/home/user/Desktop/comic_images/second_doctor'',
         MakeDirs ''/home/user/Desktop/comic_images/second_doctor/a'',
         MakeDirs ''/home/user/Desktop/comic_images/third_doctor''],
        Some RequestException)"
    by (simp add: root)
  with keys url no show ?thesis by blast
qed

text \<open>
  The claim as the specification states it (only the failing section is given up) fails.
  With all sections selected, a first section that yields a title and an image, and a
  second section answering 404, the run ends with the exception after the folder of
  the second section was made: the third and fourth sections are not visited, and the
  row of the first section is written to no manifest.
\<close>

theorem section_failure_stops_the_run:
  "main sanitize_filename (\<lambda>base u. base @ u)
     (\<lambda>u. if u = ''https://classicdoctorwhocomics.wordpress.com/first-doctor-comics/''
            then Response 200 [H2 ''A'', Img (Some ''a1.jpg'')]
          else if u = ''https://classicdoctorwhocomics.wordpress.com/second-doctor-comics/''
            then Response 404 []
          else Response 200 [H2 ''B''])
     ''/home/user'' (Some 5)
   = ([MakeDirs ''/home/user/Desktop/comic_images'',
       MakeDirs ''/home/user/Desktop/comic_images/first_doctor'',
       MakeDirs ''/home/user/Desktop/comic_images/first_doctor/a'',
       DownloadImage ''https://classicdoctorwhocomics.wordpress.com/first-doctor-comics/a1.jpg''
         ''/home/user/Desktop/comic_images/first_doctor/a/page_01.jpg'',
       MakeDirs ''/home/user/Desktop/comic_images/second_doctor''],
      Some HTTPError)"
  by code_simp


section \<open>The loop over the nodes\<close>

lemma downloads_from_enumerate:
  "downloads_from uj url folder (int m) vs =
     map (\<lambda>(k, v). DownloadImage (uj url v) (path_join folder (page_filename (int k))))
       (enumerate (Suc m) vs)"
proof (induction vs arbitrary: m)
  case Nil
  show ?case by simp
next
  case (Cons v vs)
  have eq: "int m + 1 = int (Suc m)" by simp
  show ?case using Cons.IH[of "Suc m"] by (simp only: downloads_from.simps eq enumerate_simps list.map prod.case)
qed

lemma downloads_from_0:
  "downloads_from uj url folder 0 vs = page_downloads uj url folder vs"
  using downloads_from_enumerate[of uj url folder 0 vs] by (simp add: page_downloads_def)

lemma scrape_nodes_append:
  "scrape_nodes sf uj url key df s (xs @ ys) =
     (case scrape_nodes sf uj url key df s xs of
        Inl e \<Rightarrow> Inl e
      | Inr s' \<Rightarrow> scrape_nodes sf uj url key df s' ys)"
  by (induction xs arbitrary: s) (auto split: sum.splits)

lemma process_node_ok:
  assumes "title_has_counter s"
  shows "\<exists>s'. process_node sf uj url key df s n = Inr s' \<and> title_has_counter s'"
proof (cases n)
  case (H2 raw)
  then show ?thesis
    by (auto simp: title_has_counter_def Let_def)
next
  case (Img src)
  with assms show ?thesis
    by (auto simp: title_has_counter_def Let_def split: option.splits)
qed

lemma scrape_nodes_ok:
  "title_has_counter s \<Longrightarrow>
     \<exists>s'. scrape_nodes sf uj url key df s ns = Inr s' \<and> title_has_counter s'"
proof (induction ns arbitrary: s)
  case Nil
  then show ?case by simp
next
  case (Cons n ns)
  from process_node_ok[OF Cons.prems, of sf uj url key df n]
  obtain s1 where s1: "process_node sf uj url key df s n = Inr s1" "title_has_counter s1"
    by blast
  from Cons.IH[OF s1(2)] s1(1) show ?case by simp
qed

lemma init_state_has_counter: "title_has_counter init_state"
  by (simp add: title_has_counter_def init_state_def)

lemma valid_heading_step:
  assumes "py_strip raw \<noteq> []" and "make_safe_name sf (py_strip raw) \<noteq> []"
  shows "\<exists>s'. process_node sf uj url key df s (H2 raw) = Inr s'
           \<and> current_title s' = Some (py_strip raw)
           \<and> image_counters s' (py_strip raw) = Some 0
           \<and> trace s' = trace s @ [MakeDirs (path_join df (make_safe_name sf (py_strip raw)))]
           \<and> titles_seen s' = insert (make_safe_name sf (py_strip raw)) (titles_seen s)
           \<and> titles_for_doctor s' =
               (if make_safe_name sf (py_strip raw) \<in> titles_seen s then titles_for_doctor s
                else titles_for_doctor s @
                  [(key, py_lower (py_strip raw), make_safe_name sf (py_strip raw))])"
  using assms by (auto simp: Let_def)

lemma images_under_title:
  assumes "current_title s = Some t" and "image_counters s t = Some n"
  shows "\<exists>s'. scrape_nodes sf uj url key df s (map Img srcs) = Inr s'
           \<and> current_title s' = Some t
           \<and> image_counters s' t = Some (n + int (length (usable_srcs srcs)))
           \<and> trace s' = trace s @
                downloads_from uj url (path_join df (make_safe_name sf t)) n (usable_srcs srcs)
           \<and> titles_for_doctor s' = titles_for_doctor s
           \<and> titles_seen s' = titles_seen s"
  using assms
proof (induction srcs arbitrary: s n)
  case Nil
  then show ?case by simp
next
  case (Cons src srcs)
  show ?case
  proof (cases "src = None \<or> src = Some []")
    case True
    then have "process_node sf uj url key df s (Img src) = Inr s"
      using Cons.prems by auto
    moreover have "usable_srcs (src # srcs) = usable_srcs srcs"
      using True by auto
    ultimately show ?thesis
      using Cons.IH[OF Cons.prems] by simp
  next
    case False
    then obtain v where v: "src = Some v" "v \<noteq> []" by auto
    let ?s1 = "s\<lparr>image_counters := (image_counters s)(t \<mapsto> n + 1),
                  trace := trace s @ [DownloadImage (uj url v)
                    (path_join (path_join df (make_safe_name sf t)) (page_filename (n + 1)))]\<rparr>"
    have step: "process_node sf uj url key df s (Img src) = Inr ?s1"
      using Cons.prems v by (simp add: Let_def)
    have "current_title ?s1 = Some t" "image_counters ?s1 t = Some (n + 1)"
      using Cons.prems by simp_all
    from Cons.IH[OF this]
    obtain s' where s': "scrape_nodes sf uj url key df ?s1 (map Img srcs) = Inr s'"
      "current_title s' = Some t"
      "image_counters s' t = Some (n + 1 + int (length (usable_srcs srcs)))"
      "trace s' = trace ?s1 @
         downloads_from uj url (path_join df (make_safe_name sf t)) (n + 1) (usable_srcs srcs)"
      "titles_for_doctor s' = titles_for_doctor ?s1"
      "titles_seen s' = titles_seen ?s1"
      by blast
    have us: "usable_srcs (src # srcs) = v # usable_srcs srcs"
      using v by simp
    show ?thesis
      using s' step by (simp add: us)
  qed
qed

lemma heading_occurrence:
  assumes "py_strip raw \<noteq> []" and "make_safe_name sf (py_strip raw) \<noteq> []"
  shows "\<exists>s'. scrape_nodes sf uj url key df s (H2 raw # map Img srcs) = Inr s'
           \<and> current_title s' = Some (py_strip raw)
           \<and> title_has_counter s'
           \<and> trace s' = trace s @
               MakeDirs (path_join df (make_safe_name sf (py_strip raw)))
               # page_downloads uj url (path_join df (make_safe_name sf (py_strip raw)))
                   (usable_srcs srcs)
           \<and> titles_seen s' = insert (make_safe_name sf (py_strip raw)) (titles_seen s)
           \<and> titles_for_doctor s' =
               (if make_safe_name sf (py_strip raw) \<in> titles_seen s then titles_for_doctor s
                else titles_for_doctor s @
                  [(key, py_lower (py_strip raw), make_safe_name sf (py_strip raw))])"
proof -
  from valid_heading_step[OF assms, of uj url key df s]
  obtain s1 where s1: "process_node sf uj url key df s (H2 raw) = Inr s1"
    "current_title s1 = Some (py_strip raw)"
    "image_counters s1 (py_strip raw) = Some 0"
    "trace s1 = trace s @ [MakeDirs (path_join df (make_safe_name sf (py_strip raw)))]"
    "titles_seen s1 = insert (make_safe_name sf (py_strip raw)) (titles_seen s)"
    "titles_for_doctor s1 =
       (if make_safe_name sf (py_strip raw) \<in> titles_seen s then titles_for_doctor s
        else titles_for_doctor s @
          [(key, py_lower (py_strip raw), make_safe_name sf (py_strip raw))])"
    by blast
  from images_under_title[OF s1(2) s1(3), of sf uj url key df srcs]
  obtain s' where s': "scrape_nodes sf uj url key df s1 (map Img srcs) = Inr s'"
    "current_title s' = Some (py_strip raw)"
    "image_counters s' (py_strip raw) = Some (0 + int (length (usable_srcs srcs)))"
    "trace s' = trace s1 @
       downloads_from uj url (path_join df (make_safe_name sf (py_strip raw))) 0 (usable_srcs srcs)"
    "titles_for_doctor s' = titles_for_doctor s1"
    "titles_seen s' = titles_seen s1"
    by blast
  have "title_has_counter s'"
    using s'(2,3) by (simp add: title_has_counter_def)
  then show ?thesis
    using s1 s' by (simp add: downloads_from_0)
qed

text \<open>
  C10.  From the initial state the loop ends without an exception for every node
  sequence, and the state it reaches has its current title, if any, among the keys of
  \<open>image_counters\<close>; the node sequence being arbitrary, this holds after every
  iteration.  The images that follow a valid heading, up to the next heading, are
  saved under the page numbers 1, 2, 3, ... in the order of their appearance; an image
  without a usable \<open>src\<close> takes no number.
\<close>

theorem counter_lookup_never_fails:
  "(\<exists>s. scrape_nodes sf uj url key df init_state nodes = Inr s \<and> title_has_counter s)
   \<and> (py_strip raw \<noteq> [] \<and> make_safe_name sf (py_strip raw) \<noteq> [] \<longrightarrow>
        (\<exists>s s'. scrape_nodes sf uj url key df init_state nodes = Inr s
               \<and> scrape_nodes sf uj url key df init_state (nodes @ H2 raw # map Img srcs) = Inr s'
               \<and> trace s' = trace s @
                   MakeDirs (path_join df (make_safe_name sf (py_strip raw)))
                   # map (\<lambda>(k, v). DownloadImage (uj url v)
                            (path_join (path_join df (make_safe_name sf (py_strip raw)))
                               (page_filename (int k))))
                       (zip [1..<Suc (length (usable_srcs srcs))] (usable_srcs srcs))))"
proof -
  from scrape_nodes_ok[OF init_state_has_counter, of sf uj url key df nodes]
  obtain s where s: "scrape_nodes sf uj url key df init_state nodes = Inr s" "title_has_counter s"
    by blast
  have second: "\<exists>s'. scrape_nodes sf uj url key df init_state (nodes @ H2 raw # map Img srcs) = Inr s'
               \<and> trace s' = trace s @
                   MakeDirs (path_join df (make_safe_name sf (py_strip raw)))
                   # map (\<lambda>(k, v). DownloadImage (uj url v)
                            (path_join (path_join df (make_safe_name sf (py_strip raw)))
                               (page_filename (int k))))
                       (zip [1..<Suc (length (usable_srcs srcs))] (usable_srcs srcs))"
    if valid: "py_strip raw \<noteq> []" "make_safe_name sf (py_strip raw) \<noteq> []"
  proof -
    from heading_occurrence[OF valid, of uj url key df s srcs]
    obtain s' where s': "scrape_nodes sf uj url key df s (H2 raw # map Img srcs) = Inr s'"
      "trace s' = trace s @
               MakeDirs (path_join df (make_safe_name sf (py_strip raw)))
               # page_downloads uj url (path_join df (make_safe_name sf (py_strip raw)))
                   (usable_srcs srcs)"
      by blast
    have "scrape_nodes sf uj url key df init_state (nodes @ H2 raw # map Img srcs) = Inr s'"
      using s(1) s'(1) by (simp only: scrape_nodes_append sum.case)
    with s'(2) show ?thesis
      by (simp add: page_downloads_def enumerate_eq_zip del: upt_Suc)
  qed
  from s second show ?thesis by blast
qed

theorem counter_lookup_never_fails_witness:
  "py_strip ''B'' \<noteq> [] \<and> make_safe_name sanitize_filename (py_strip ''B'') \<noteq> []
   \<and> (\<exists>s s'. scrape_nodes sanitize_filename (\<lambda>base u. base @ u) ''http://site/'' ''first_doctor''
                ''root/first_doctor'' init_state [H2 ''A'', Img (Some ''0.jpg'')] = Inr s
            \<and> title_has_counter s
            \<and> scrape_nodes sanitize_filename (\<lambda>base u. base @ u) ''http://site/'' ''first_doctor''
                ''root/first_doctor'' init_state
                ([H2 ''A'', Img (Some ''0.jpg'')]
                 @ H2 ''B'' # map Img [Some ''1.jpg'', None, Some '''', Some ''2.jpg'']) = Inr s'
            \<and> trace s' = trace s @
                [MakeDirs ''root/first_doctor/b'',
                 DownloadImage ''http://site/1.jpg'' ''root/first_doctor/b/page_01.jpg'',
                 DownloadImage ''http://site/2.jpg'' ''root/first_doctor/b/page_02.jpg''])"
proof -
  let ?run = "scrape_nodes sanitize_filename (\<lambda>base u. base @ u) ''http://site/'' ''first_doctor''
                ''root/first_doctor'' init_state"
  let ?srcs = "[Some ''1.jpg'', None, Some '''', Some ''2.jpg'']"
  have valid: "py_strip ''B'' \<noteq> [] \<and> make_safe_name sanitize_filename (py_strip ''B'') \<noteq> []"
    by code_simp
  have ev: "MakeDirs (path_join ''root/first_doctor''
                        (make_safe_name sanitize_filename (py_strip ''B'')))
            # map (\<lambda>(k, v). DownloadImage (''http://site/'' @ v)
                     (path_join (path_join ''root/first_doctor''
                                   (make_safe_name sanitize_filename (py_strip ''B'')))
                        (page_filename (int k))))
                (zip [1..<Suc (length (usable_srcs ?srcs))] (usable_srcs ?srcs))
            = [MakeDirs ''root/first_doctor/b'',
               DownloadImage ''http://site/1.jpg'' ''root/first_doctor/b/page_01.jpg'',
               DownloadImage ''http://site/2.jpg'' ''root/first_doctor/b/page_02.jpg'']"
    by code_simp
  from counter_lookup_never_fails[of sanitize_filename "\<lambda>base u. base @ u" "''http://site/''"
      "''first_doctor''" "''root/first_doctor''" "[H2 ''A'', Img (Some ''0.jpg'')]" "''B''" ?srcs]
    valid
  obtain s s' where run: "?run [H2 ''A'', Img (Some ''0.jpg'')] = Inr s" "title_has_counter s"
    "?run ([H2 ''A'', Img (Some ''0.jpg'')] @ H2 ''B'' # map Img ?srcs) = Inr s'"
    and tr: "trace s' = trace s @
            MakeDirs (path_join ''root/first_doctor''
                        (make_safe_name sanitize_filename (py_strip ''B'')))
            # map (\<lambda>(k, v). DownloadImage (''http://site/'' @ v)
                     (path_join (path_join ''root/first_doctor''
                                   (make_safe_name sanitize_filename (py_strip ''B'')))
                        (page_filename (int k))))
                (zip [1..<Suc (length (usable_srcs ?srcs))] (usable_srcs ?srcs))"
    by (metis old.sum.inject(2))
  from tr have "trace s' = trace s @
                [MakeDirs ''root/first_doctor/b'',
                 DownloadImage ''http://site/1.jpg'' ''root/first_doctor/b/page_01.jpg'',
                 DownloadImage ''http://site/2.jpg'' ''root/first_doctor/b/page_02.jpg'']"
    by (simp only: ev)
  with run valid show ?thesis by blast
qed


section \<open>Rows and seen names\<close>

lemma process_node_rows_cases:
  assumes "process_node sf uj url key df s n = Inr s'"
  shows "(titles_seen s' = titles_seen s \<and> titles_for_doctor s' = titles_for_doctor s)
       \<or> (\<exists>lt sn. sn \<notin> titles_seen s \<and> titles_seen s' = insert sn (titles_seen s)
             \<and> titles_for_doctor s' = titles_for_doctor s @ [(key, lt, sn)])"
proof (cases n)
  case (H2 raw)
  with assms show ?thesis
    by (auto simp: Let_def split: if_splits)
next
  case (Img src)
  with assms show ?thesis
    by (auto simp: Let_def split: if_splits option.splits)
qed

lemma process_node_rows_consistent:
  assumes "rows_consistent s" and "process_node sf uj url key df s n = Inr s'"
  shows "rows_consistent s'"
  using process_node_rows_cases[OF assms(2)]
proof (elim disjE exE conjE)
  assume "titles_seen s' = titles_seen s" "titles_for_doctor s' = titles_for_doctor s"
  with assms(1) show ?thesis by (simp add: rows_consistent_def)
next
  fix lt sn
  assume "sn \<notin> titles_seen s" "titles_seen s' = insert sn (titles_seen s)"
    "titles_for_doctor s' = titles_for_doctor s @ [(key, lt, sn)]"
  with assms(1) show ?thesis by (simp add: rows_consistent_def)
qed

lemma process_node_seen_mono:
  "process_node sf uj url key df s n = Inr s' \<Longrightarrow> titles_seen s \<subseteq> titles_seen s'"
  by (cases n) (auto simp: Let_def split: if_splits option.splits)

lemma scrape_nodes_rows_consistent:
  "rows_consistent s \<Longrightarrow> scrape_nodes sf uj url key df s ns = Inr s' \<Longrightarrow> rows_consistent s'"
proof (induction ns arbitrary: s)
  case Nil
  then show ?case by simp
next
  case (Cons n ns)
  then show ?case
    by (auto split: sum.splits dest: process_node_rows_consistent)
qed

lemma scrape_nodes_seen_mono:
  "scrape_nodes sf uj url key df s ns = Inr s' \<Longrightarrow> titles_seen s \<subseteq> titles_seen s'"
proof (induction ns arbitrary: s)
  case Nil
  then show ?case by simp
next
  case (Cons n ns)
  then show ?case
    by (fastforce split: sum.splits dest: process_node_seen_mono)
qed

lemma init_state_rows_consistent: "rows_consistent init_state"
  by (simp add: rows_consistent_def init_state_def)

lemma distinct_map_filter_one:
  "distinct (map f xs) \<Longrightarrow> a \<in> set (map f xs) \<Longrightarrow> length (filter (\<lambda>r. f r = a) xs) = 1"
proof (induction xs)
  case Nil
  then show ?case by simp
next
  case (Cons x xs)
  show ?case
  proof (cases "f x = a")
    case True
    from Cons.prems(1) have "f x \<notin> f ` set xs" by simp
    with True have "\<forall>r \<in> set xs. f r \<noteq> a" by blast
    then have "filter (\<lambda>r. f r = a) xs = []" by (simp add: filter_empty_conv)
    with True show ?thesis by simp
  next
    case False
    with Cons show ?thesis by auto
  qed
qed

lemma download_paths_page_downloads:
  "download_paths (page_downloads uj url folder vs) =
     map (\<lambda>k. path_join folder (page_filename (int k))) [1..<Suc (length vs)]"
proof -
  let ?g = "\<lambda>k. path_join folder (page_filename (int k))"
  let ?ks = "[1..<Suc (length vs)]"
  have paths: "download_paths (map (\<lambda>(k, v). DownloadImage (uj url v) (?g k)) kvs)
          = map ?g (map fst kvs)" for kvs
    by (induction kvs) auto
  have "length ?ks = length vs" by (simp del: upt_Suc)
  then have "map fst (zip ?ks vs) = ?ks" by (rule map_fst_zip)
  then show ?thesis
    using paths[of "zip ?ks vs"]
    by (simp add: page_downloads_def enumerate_eq_zip del: upt_Suc)
qed

text \<open>
  C2.  Let a valid heading text occur twice in a node sequence, each time followed by
  images, with anything before and in between.  Both occurrences make the same folder,
  the one named by the safe name, and each numbers its images from 1: the downloads of
  the second occurrence go to \<open>page_01.jpg\<close>, \<open>page_02.jpg\<close>, ... of that folder, the
  paths the first occurrence used.  The second occurrence adds no manifest row, and
  whatever follows, the final row list has exactly one row with this safe name.
\<close>

theorem repeated_heading_restarts_counter:
  assumes "py_strip raw \<noteq> []" and "make_safe_name sf (py_strip raw) \<noteq> []"
  shows "\<exists>s1 s2 s3 s4 s5.
       scrape_nodes sf uj url key df init_state pre = Inr s1
     \<and> scrape_nodes sf uj url key df init_state (pre @ H2 raw # map Img srcs1) = Inr s2
     \<and> scrape_nodes sf uj url key df init_state (pre @ H2 raw # map Img srcs1 @ mid) = Inr s3
     \<and> scrape_nodes sf uj url key df init_state
          (pre @ H2 raw # map Img srcs1 @ mid @ H2 raw # map Img srcs2) = Inr s4
     \<and> trace s2 = trace s1 @
          MakeDirs (path_join df (make_safe_name sf (py_strip raw)))
          # page_downloads uj url (path_join df (make_safe_name sf (py_strip raw)))
              (usable_srcs srcs1)
     \<and> trace s4 = trace s3 @
          MakeDirs (path_join df (make_safe_name sf (py_strip raw)))
          # page_downloads uj url (path_join df (make_safe_name sf (py_strip raw)))
              (usable_srcs srcs2)
     \<and> download_paths
          (page_downloads uj url (path_join df (make_safe_name sf (py_strip raw)))
             (usable_srcs srcs2))
        = map (\<lambda>k. path_join (path_join df (make_safe_name sf (py_strip raw)))
                      (page_filename (int k)))
            [1..<Suc (length (usable_srcs srcs2))]
     \<and> titles_for_doctor s4 = titles_for_doctor s3
     \<and> scrape_nodes sf uj url key df init_state
          (pre @ H2 raw # map Img srcs1 @ mid @ H2 raw # map Img srcs2 @ post) = Inr s5
     \<and> length (filter (\<lambda>r. snd (snd r) = make_safe_name sf (py_strip raw))
                  (titles_for_doctor s5)) = 1"
proof -
  let ?sn = "make_safe_name sf (py_strip raw)"
  let ?F = "path_join df ?sn"
  let ?run = "scrape_nodes sf uj url key df"
  from scrape_nodes_ok[OF init_state_has_counter, of sf uj url key df pre]
  obtain s1 where s1: "?run init_state pre = Inr s1" by blast
  from heading_occurrence[OF assms, of uj url key df s1 srcs1]
  obtain s2 where s2: "?run s1 (H2 raw # map Img srcs1) = Inr s2" "title_has_counter s2"
    "trace s2 = trace s1 @ MakeDirs ?F # page_downloads uj url ?F (usable_srcs srcs1)"
    "titles_seen s2 = insert ?sn (titles_seen s1)"
    by blast
  from scrape_nodes_ok[OF s2(2), of sf uj url key df mid]
  obtain s3 where s3: "?run s2 mid = Inr s3" by blast
  have seen3: "?sn \<in> titles_seen s3"
    using scrape_nodes_seen_mono[OF s3] s2(4) by blast
  from heading_occurrence[OF assms, of uj url key df s3 srcs2]
  obtain s4 where s4: "?run s3 (H2 raw # map Img srcs2) = Inr s4"
    "trace s4 = trace s3 @ MakeDirs ?F # page_downloads uj url ?F (usable_srcs srcs2)"
    "titles_seen s4 = insert ?sn (titles_seen s3)"
    "titles_for_doctor s4 =
       (if ?sn \<in> titles_seen s3 then titles_for_doctor s3
        else titles_for_doctor s3 @ [(key, py_lower (py_strip raw), ?sn)])"
    "title_has_counter s4"
    by blast
  from scrape_nodes_ok[OF s4(5), of sf uj url key df post]
  obtain s5 where s5: "?run s4 post = Inr s5" by blast
  have r2: "?run init_state (pre @ H2 raw # map Img srcs1) = Inr s2"
    using s1 s2(1) by (simp only: scrape_nodes_append sum.case)
  have "?run init_state ((pre @ H2 raw # map Img srcs1) @ mid) = Inr s3"
    using r2 s3 by (simp only: scrape_nodes_append sum.case)
  then have r3: "?run init_state (pre @ H2 raw # map Img srcs1 @ mid) = Inr s3"
    by simp
  have "?run init_state ((pre @ H2 raw # map Img srcs1 @ mid) @ H2 raw # map Img srcs2) = Inr s4"
    using r3 s4(1) by (simp only: scrape_nodes_append sum.case)
  then have r4: "?run init_state (pre @ H2 raw # map Img srcs1 @ mid @ H2 raw # map Img srcs2)
                   = Inr s4"
    by simp
  have "?run init_state
          ((pre @ H2 raw # map Img srcs1 @ mid @ H2 raw # map Img srcs2) @ post) = Inr s5"
    using r4 s5 by (simp only: scrape_nodes_append sum.case)
  then have r5: "?run init_state
                   (pre @ H2 raw # map Img srcs1 @ mid @ H2 raw # map Img srcs2 @ post) = Inr s5"
    by simp
  have rows4: "titles_for_doctor s4 = titles_for_doctor s3"
    using s4(4) seen3 by simp
  have "rows_consistent s5"
    by (rule scrape_nodes_rows_consistent[OF init_state_rows_consistent r5])
  moreover have "?sn \<in> titles_seen s5"
    using scrape_nodes_seen_mono[OF s5] s4(3) by blast
  ultimately have one: "length (filter (\<lambda>r. snd (snd r) = ?sn) (titles_for_doctor s5)) = 1"
    using distinct_map_filter_one[of "snd \<circ> snd" "titles_for_doctor s5" ?sn]
    by (simp add: rows_consistent_def)
  show ?thesis
    using s1 r2 r3 r4 r5 s2(3) s4(2) rows4 one download_paths_page_downloads by blast
qed

theorem repeated_heading_restarts_counter_witness:
  "py_strip ''A'' \<noteq> [] \<and> make_safe_name sanitize_filename (py_strip ''A'') \<noteq> []
   \<and> (\<exists>s3 s4 s5.
         scrape_nodes sanitize_filename (\<lambda>base u. base @ u) ''http://site/'' ''first_doctor''
           ''root/first_doctor'' init_state
           ([] @ H2 ''A'' # map Img [Some ''1.jpg'', Some ''2.jpg''] @ [H2 ''B'', Img (Some ''3.jpg'')])
           = Inr s3
       \<and> scrape_nodes sanitize_filename (\<lambda>base u. base @ u) ''http://site/'' ''first_doctor''
           ''root/first_doctor'' init_state
           ([] @ H2 ''A'' # map Img [Some ''1.jpg'', Some ''2.jpg''] @ [H2 ''B'', Img (Some ''3.jpg'')]
               @ H2 ''A'' # map Img [Some ''4.jpg''])
           = Inr s4
       \<and> trace s4 = trace s3 @
           [MakeDirs ''root/first_doctor/a'',
            DownloadImage ''http://site/4.jpg'' ''root/first_doctor/a/page_01.jpg'']
       \<and> titles_for_doctor s4 = titles_for_doctor s3
       \<and> scrape_nodes sanitize_filename (\<lambda>base u. base @ u) ''http://site/'' ''first_doctor''
           ''root/first_doctor'' init_state
           ([] @ H2 ''A'' # map Img [Some ''1.jpg'', Some ''2.jpg''] @ [H2 ''B'', Img (Some ''3.jpg'')]
               @ H2 ''A'' # map Img [Some ''4.jpg''] @ [H2 '' a ''])
           = Inr s5
       \<and> length (filter (\<lambda>r. snd (snd r) = ''a'') (titles_for_doctor s5)) = 1)"
proof -
  let ?run = "scrape_nodes sanitize_filename (\<lambda>base u. base @ u) ''http://site/'' ''first_doctor''
                ''root/first_doctor'' init_state"
  let ?srcs1 = "[Some ''1.jpg'', Some ''2.jpg'']"
  let ?mid = "[H2 ''B'', Img (Some ''3.jpg'')]"
  let ?srcs2 = "[Some ''4.jpg'']"
  have v1: "py_strip ''A'' \<noteq> []" by code_simp
  have v2: "make_safe_name sanitize_filename (py_strip ''A'') \<noteq> []" by code_simp
  have sn: "make_safe_name sanitize_filename (py_strip ''A'') = ''a''" by code_simp
  have ev: "MakeDirs (path_join ''root/first_doctor''
                        (make_safe_name sanitize_filename (py_strip ''A'')))
            # page_downloads (\<lambda>base u. base @ u) ''http://site/''
                (path_join ''root/first_doctor''
                   (make_safe_name sanitize_filename (py_strip ''A'')))
                (usable_srcs ?srcs2)
            = [MakeDirs ''root/first_doctor/a'',
               DownloadImage ''http://site/4.jpg'' ''root/first_doctor/a/page_01.jpg'']"
    by code_simp
  from repeated_heading_restarts_counter[OF v1 v2, of "\<lambda>base u. base @ u" "''http://site/''"
      "''first_doctor''" "''root/first_doctor''" "[]" ?srcs1 ?mid ?srcs2 "[H2 '' a '']"]
  obtain s3 s4 s5 where run: "?run ([] @ H2 ''A'' # map Img ?srcs1 @ ?mid) = Inr s3"
    "?run ([] @ H2 ''A'' # map Img ?srcs1 @ ?mid @ H2 ''A'' # map Img ?srcs2) = Inr s4"
    and tr: "trace s4 = trace s3 @
          MakeDirs (path_join ''root/first_doctor''
                      (make_safe_name sanitize_filename (py_strip ''A'')))
          # page_downloads (\<lambda>base u. base @ u) ''http://site/''
              (path_join ''root/first_doctor''
                 (make_safe_name sanitize_filename (py_strip ''A'')))
              (usable_srcs ?srcs2)"
    and rows: "titles_for_doctor s4 = titles_for_doctor s3"
      "length (filter (\<lambda>r. snd (snd r) = make_safe_name sanitize_filename (py_strip ''A''))
                 (titles_for_doctor s5)) = 1"
    and fin: "?run ([] @ H2 ''A'' # map Img ?srcs1 @ ?mid @ H2 ''A'' # map Img ?srcs2 @ [H2 '' a ''])
                = Inr s5"
    by blast
  from tr have tr': "trace s4 = trace s3 @
           [MakeDirs ''root/first_doctor/a'',
            DownloadImage ''http://site/4.jpg'' ''root/first_doctor/a/page_01.jpg'']"
    by (simp only: ev)
  from rows(2) have one: "length (filter (\<lambda>r. snd (snd r) = ''a'') (titles_for_doctor s5)) = 1"
    by (simp only: sn)
  from v1 v2 run tr' rows(1) fin one show ?thesis by blast
qed


section \<open>One row for each safe name\<close>

lemma py_strip_idem: "py_strip (py_strip s) = py_strip s"
proof -
  let ?d = "dropWhile py_isspace"
  have hd_keep: "?d (rev (?d (rev ys)))= rev (?d (rev ys))" if "ys = [] \<or> \<not> py_isspace (hd ys)" for ys
  proof (cases "?d (rev ys) = []")
    case True
    then show ?thesis by (simp only: rev.simps dropWhile.simps)
  next
    case False
    then have "last (?d (rev ys)) = last (rev ys)"
      by (metis last_appendR takeWhile_dropWhile_id)
    moreover from False have "ys \<noteq> []" by auto
    ultimately have "hd (rev (?d (rev ys))) = hd ys"
      using False by (simp add: hd_rev last_rev)
    with that \<open>ys \<noteq> []\<close> have "\<not> py_isspace (hd (rev (?d (rev ys))))" by simp
    moreover have "rev (?d (rev ys)) \<noteq> []" using False by simp
    ultimately show ?thesis
      by (cases "rev (?d (rev ys))") auto
  qed
  have "?d s = [] \<or> \<not> py_isspace (hd (?d s))"
    using hd_dropWhile[of py_isspace s] by blast
  from hd_keep[OF this] show ?thesis
    by (simp add: py_strip_def)
qed

lemma make_safe_name_strip: "make_safe_name sf (py_strip s) = make_safe_name sf s"
  by (simp add: make_safe_name_def py_strip_idem)

lemma make_safe_name_blank:
  "sf [] = [] \<Longrightarrow> py_strip s = [] \<Longrightarrow> make_safe_name sf s = []"
  by (simp add: make_safe_name_def replace_space_def py_lower_def)

lemma heading_texts_append: "heading_texts (xs @ ys) = heading_texts xs @ heading_texts ys"
  by (induction xs rule: heading_texts.induct) auto

lemma first_seen_order_snoc:
  "first_seen_order (ys @ [y]) =
     (if y \<in> set ys then first_seen_order ys else first_seen_order ys @ [y])"
  by (simp add: first_seen_order_def)

lemma set_first_seen_order: "set (first_seen_order ys) = set ys"
  by (simp add: first_seen_order_def)

lemma distinct_first_seen_order: "distinct (first_seen_order ys)"
  by (simp add: first_seen_order_def)

lemma find_append:
  "find P (xs @ ys) = (case find P xs of None \<Rightarrow> find P ys | Some x \<Rightarrow> Some x)"
  by (induction xs) auto

lemma first_heading_snoc_old:
  assumes "n \<in> set (map (make_safe_name sf) (heading_texts xs))"
  shows "first_heading sf (xs @ [x]) n = first_heading sf xs n"
proof -
  from assms obtain raw where "find (\<lambda>raw. make_safe_name sf raw = n) (heading_texts xs) = Some raw"
    by (cases "find (\<lambda>raw. make_safe_name sf raw = n) (heading_texts xs)")
       (auto simp: find_None_iff)
  then show ?thesis
    by (simp add: first_heading_def heading_texts_append find_append)
qed

lemma first_heading_snoc_new:
  assumes "make_safe_name sf raw \<notin> set (map (make_safe_name sf) (heading_texts xs))"
  shows "first_heading sf (xs @ [H2 raw]) (make_safe_name sf raw) = raw"
proof -
  have "make_safe_name sf r \<noteq> make_safe_name sf raw" if "r \<in> set (heading_texts xs)" for r
  proof
    assume "make_safe_name sf r = make_safe_name sf raw"
    with that have "make_safe_name sf raw \<in> make_safe_name sf ` set (heading_texts xs)"
      by (metis imageI)
    with assms show False by simp
  qed
  then have "find (\<lambda>r. make_safe_name sf r = make_safe_name sf raw) (heading_texts xs) = None"
    by (simp add: find_None_iff)
  then show ?thesis
    by (simp add: first_heading_def heading_texts_append find_append)
qed

lemma expected_rows_snoc_img: "expected_rows sf key (xs @ [Img src]) = expected_rows sf key xs"
proof -
  have "heading_texts (xs @ [Img src]) = heading_texts xs"
    by (simp add: heading_texts_append)
  then show ?thesis
    by (simp add: expected_rows_def sanitized_headings_def first_heading_def)
qed

lemma expected_rows_old:
  "map (\<lambda>n. (key, py_lower (py_strip (first_heading sf (xs @ [x]) n)), n))
       (first_seen_order (sanitized_headings sf xs)) = expected_rows sf key xs"
  unfolding expected_rows_def
proof (rule map_cong[OF refl])
  fix n assume "n \<in> set (first_seen_order (sanitized_headings sf xs))"
  then have "n \<in> set (map (make_safe_name sf) (heading_texts xs))"
    by (auto simp: set_first_seen_order sanitized_headings_def)
  from first_heading_snoc_old[OF this]
  show "(key, py_lower (py_strip (first_heading sf (xs @ [x]) n)), n)
        = (key, py_lower (py_strip (first_heading sf xs n)), n)" by simp
qed

lemma sanitized_headings_snoc:
  "sanitized_headings sf (xs @ [H2 raw]) =
     sanitized_headings sf xs @ (if make_safe_name sf raw = [] then [] else [make_safe_name sf raw])"
  by (simp add: sanitized_headings_def heading_texts_append)

lemma expected_rows_snoc_heading:
  "expected_rows sf key (xs @ [H2 raw]) =
     (if make_safe_name sf raw = [] \<or> make_safe_name sf raw \<in> set (sanitized_headings sf xs)
      then expected_rows sf key xs
      else expected_rows sf key xs @ [(key, py_lower (py_strip raw), make_safe_name sf raw)])"
proof (cases "make_safe_name sf raw = [] \<or> make_safe_name sf raw \<in> set (sanitized_headings sf xs)")
  case True
  then have "first_seen_order (sanitized_headings sf (xs @ [H2 raw]))
               = first_seen_order (sanitized_headings sf xs)"
    by (auto simp: sanitized_headings_snoc first_seen_order_snoc)
  then have "expected_rows sf key (xs @ [H2 raw]) =
     map (\<lambda>n. (key, py_lower (py_strip (first_heading sf (xs @ [H2 raw]) n)), n))
       (first_seen_order (sanitized_headings sf xs))"
    by (simp add: expected_rows_def)
  with True show ?thesis by (simp only: expected_rows_old if_True)
next
  case False
  then have ne: "make_safe_name sf raw \<noteq> []"
    and new: "make_safe_name sf raw \<notin> set (sanitized_headings sf xs)" by auto
  from ne new have "make_safe_name sf raw \<notin> set (map (make_safe_name sf) (heading_texts xs))"
    by (auto simp: sanitized_headings_def)
  from first_heading_snoc_new[OF this]
  have fh: "first_heading sf (xs @ [H2 raw]) (make_safe_name sf raw) = raw" .
  have "first_seen_order (sanitized_headings sf (xs @ [H2 raw]))
          = first_seen_order (sanitized_headings sf xs) @ [make_safe_name sf raw]"
    using ne new by (simp add: sanitized_headings_snoc first_seen_order_snoc)
  then have "expected_rows sf key (xs @ [H2 raw]) =
     map (\<lambda>n. (key, py_lower (py_strip (first_heading sf (xs @ [H2 raw]) n)), n))
       (first_seen_order (sanitized_headings sf xs))
     @ [(key, py_lower (py_strip raw), make_safe_name sf raw)]"
    by (simp add: expected_rows_def fh)
  with False show ?thesis by (simp only: expected_rows_old if_False)
qed

lemma scrape_nodes_rows:
  assumes sf: "sf [] = []"
  shows "\<exists>s. scrape_nodes sf uj url key df init_state nodes = Inr s
           \<and> title_has_counter s
           \<and> titles_seen s = set (sanitized_headings sf nodes)
           \<and> titles_for_doctor s = expected_rows sf key nodes"
proof (induction nodes rule: rev_induct)
  case Nil
  have "titles_seen init_state = {}" "titles_for_doctor init_state = []"
    by (simp_all add: init_state_def)
  then show ?case
    using init_state_has_counter
    by (simp add: expected_rows_def sanitized_headings_def first_seen_order_def)
next
  case (snoc x xs)
  then obtain s where s: "scrape_nodes sf uj url key df init_state xs = Inr s"
    "title_has_counter s" "titles_seen s = set (sanitized_headings sf xs)"
    "titles_for_doctor s = expected_rows sf key xs"
    by blast
  have run: "scrape_nodes sf uj url key df init_state (xs @ [x])
               = (case process_node sf uj url key df s x of Inl e \<Rightarrow> Inl (e, s) | Inr s' \<Rightarrow> Inr s')"
    using s(1) by (simp add: scrape_nodes_append split: sum.splits)
  from process_node_ok[OF s(2), of sf uj url key df x]
  obtain s' where s': "process_node sf uj url key df s x = Inr s'" "title_has_counter s'"
    by blast
  have fin: "scrape_nodes sf uj url key df init_state (xs @ [x]) = Inr s'"
    using run s'(1) by simp
  show ?case
  proof (cases x)
    case (Img src)
    have "titles_seen s' = titles_seen s" "titles_for_doctor s' = titles_for_doctor s"
      using s'(1) Img by (auto split: option.splits if_splits simp: Let_def)
    moreover have "sanitized_headings sf (xs @ [x]) = sanitized_headings sf xs"
      using Img by (simp add: sanitized_headings_def heading_texts_append)
    ultimately show ?thesis
      using fin s'(2) s(3,4) Img by (simp add: expected_rows_snoc_img)
  next
    case (H2 raw)
    show ?thesis
    proof (cases "py_strip raw = [] \<or> make_safe_name sf (py_strip raw) = []")
      case True
      then have blank: "make_safe_name sf raw = []"
        using make_safe_name_blank[of sf raw] sf make_safe_name_strip[of sf raw] by auto
      have "titles_seen s' = titles_seen s" "titles_for_doctor s' = titles_for_doctor s"
        using s'(1) H2 True by (auto simp: Let_def split: if_splits)
      then show ?thesis
        using fin s'(2) s(3,4) H2 blank
        by (simp add: expected_rows_snoc_heading sanitized_headings_snoc)
    next
      case False
      then have valid: "py_strip raw \<noteq> []" "make_safe_name sf (py_strip raw) \<noteq> []" by auto
      from valid_heading_step[OF valid, of uj url key df s] s'(1) H2
      have seen': "titles_seen s' = insert (make_safe_name sf (py_strip raw)) (titles_seen s)"
        and rows': "titles_for_doctor s' =
               (if make_safe_name sf (py_strip raw) \<in> titles_seen s then titles_for_doctor s
                else titles_for_doctor s @
                  [(key, py_lower (py_strip raw), make_safe_name sf (py_strip raw))])"
        by auto
      have ne: "make_safe_name sf raw \<noteq> []"
        using valid(2) by (simp add: make_safe_name_strip)
      show ?thesis
        using fin s'(2) s(3,4) H2 ne seen' rows'
        by (simp add: expected_rows_snoc_heading sanitized_headings_snoc make_safe_name_strip
            py_strip_idem)
    qed
  qed
qed

text \<open>
  C3.  Provided \<open>sanitize_filename\<close> maps the empty string to the empty string, the rows
  of a section are: one row for each distinct non-empty sanitized heading value, in the
  order in which these values are first seen, and the \<open>title_lower\<close> field of a row is
  the lower-cased trimmed text of the first heading with that value.  The safe names of
  the rows are distinct, their number is the number of distinct values, and a further
  heading whose safe name was seen before adds no row.
\<close>

theorem manifest_rows_first_seen:
  assumes "sf [] = []"
  shows "\<exists>s. scrape_nodes sf uj url key df init_state nodes = Inr s
     \<and> titles_for_doctor s =
         map (\<lambda>n. (key, py_lower (py_strip (first_heading sf nodes n)), n))
           (first_seen_order (sanitized_headings sf nodes))
     \<and> map (snd \<circ> snd) (titles_for_doctor s) = first_seen_order (sanitized_headings sf nodes)
     \<and> distinct (map (snd \<circ> snd) (titles_for_doctor s))
     \<and> length (titles_for_doctor s) = card (set (sanitized_headings sf nodes))
     \<and> (make_safe_name sf raw \<in> set (sanitized_headings sf nodes) \<longrightarrow>
          (\<exists>s'. scrape_nodes sf uj url key df init_state (nodes @ [H2 raw]) = Inr s'
                \<and> titles_for_doctor s' = titles_for_doctor s))"
proof -
  from scrape_nodes_rows[of sf uj url key df nodes] assms
  obtain s where s: "scrape_nodes sf uj url key df init_state nodes = Inr s"
    "titles_for_doctor s = expected_rows sf key nodes"
    by blast
  from scrape_nodes_rows[of sf uj url key df "nodes @ [H2 raw]"] assms
  obtain s' where s': "scrape_nodes sf uj url key df init_state (nodes @ [H2 raw]) = Inr s'"
    "titles_for_doctor s' = expected_rows sf key (nodes @ [H2 raw])"
    by blast
  have safe: "map (snd \<circ> snd) (titles_for_doctor s) = first_seen_order (sanitized_headings sf nodes)"
    by (simp add: s(2) expected_rows_def comp_def)
  have dist: "distinct (map (snd \<circ> snd) (titles_for_doctor s))"
    by (simp only: safe distinct_first_seen_order)
  have "length (titles_for_doctor s) = length (first_seen_order (sanitized_headings sf nodes))"
    by (simp add: s(2) expected_rows_def)
  also have "\<dots> = card (set (first_seen_order (sanitized_headings sf nodes)))"
    by (simp add: distinct_card distinct_first_seen_order)
  finally have len: "length (titles_for_doctor s) = card (set (sanitized_headings sf nodes))"
    by (simp add: set_first_seen_order)
  have again: "titles_for_doctor s' = titles_for_doctor s"
    if "make_safe_name sf raw \<in> set (sanitized_headings sf nodes)"
    using that by (simp add: s'(2) s(2) expected_rows_snoc_heading)
  show ?thesis
    using s(1) s(2) safe dist len s'(1) again
    by (auto simp: expected_rows_def)
qed

theorem manifest_rows_first_seen_witness:
  "sanitize_filename [] = []
   \<and> make_safe_name sanitize_filename '' a '' \<in>
       set (sanitized_headings sanitize_filename [H2 ''A'', Img None, H2 ''  '', H2 ''B'', H2 ''a''])
   \<and> (\<exists>s s'.
         scrape_nodes sanitize_filename (\<lambda>base u. base @ u) ''http://site/'' ''first_doctor''
           ''root/first_doctor'' init_state [H2 ''A'', Img None, H2 ''  '', H2 ''B'', H2 ''a'']
           = Inr s
       \<and> titles_for_doctor s = [(''first_doctor'', ''a'', ''a''), (''first_doctor'', ''b'', ''b'')]
       \<and> scrape_nodes sanitize_filename (\<lambda>base u. base @ u) ''http://site/'' ''first_doctor''
           ''root/first_doctor'' init_state
           ([H2 ''A'', Img None, H2 ''  '', H2 ''B'', H2 ''a''] @ [H2 '' a ''])
           = Inr s'
       \<and> titles_for_doctor s' = titles_for_doctor s)"
proof -
  let ?run = "scrape_nodes sanitize_filename (\<lambda>base u. base @ u) ''http://site/'' ''first_doctor''
                ''root/first_doctor'' init_state"
  let ?nodes = "[H2 ''A'', Img None, H2 ''  '', H2 ''B'', H2 ''a'']"
  have e: "sanitize_filename [] = []" by code_simp
  have again: "make_safe_name sanitize_filename '' a '' \<in> set (sanitized_headings sanitize_filename ?nodes)"
    by code_simp
  have rows: "map (\<lambda>n. (''first_doctor'', py_lower (py_strip (first_heading sanitize_filename ?nodes n)), n))
           (first_seen_order (sanitized_headings sanitize_filename ?nodes))
          = [(''first_doctor'', ''a'', ''a''), (''first_doctor'', ''b'', ''b'')]"
    by code_simp
  from manifest_rows_first_seen[where sf = sanitize_filename and uj = "\<lambda>base u. base @ u"
      and url = "''http://site/''" and key = "''first_doctor''" and df = "''root/first_doctor''"
      and nodes = ?nodes and raw = "'' a ''"] e again
  obtain s s' where run: "?run ?nodes = Inr s" "?run (?nodes @ [H2 '' a '']) = Inr s'"
    "titles_for_doctor s' = titles_for_doctor s"
    and r: "titles_for_doctor s =
         map (\<lambda>n. (''first_doctor'', py_lower (py_strip (first_heading sanitize_filename ?nodes n)), n))
           (first_seen_order (sanitized_headings sanitize_filename ?nodes))"
    by blast
  from r have "titles_for_doctor s = [(''first_doctor'', ''a'', ''a''), (''first_doctor'', ''b'', ''b'')]"
    by (simp only: rows)
  with e again run show ?thesis by blast
qed


section \<open>The example sequence\<close>

lemma py_strip_A: "py_strip ''A'' = ''A''"
  by code_simp
lemma py_strip_B: "py_strip ''B'' = ''B''"
  by code_simp
lemma py_strip_Nil: "py_strip [] = []"
  by (simp add: py_strip_def)
lemma py_lower_A: "py_lower ''A'' = ''a''"
  by code_simp
lemma py_lower_B: "py_lower ''B'' = ''b''"
  by code_simp
lemma page_filename_1: "page_filename 1 = ''page_01.jpg''"
  by code_simp
lemma page_filename_2: "page_filename 2 = ''page_02.jpg''"
  by code_simp

lemma make_safe_name_A: "sf ''A'' = ''A'' \<Longrightarrow> make_safe_name sf ''A'' = ''a''"
  by (simp add: make_safe_name_def py_strip_A replace_space_def py_lower_A)

lemma make_safe_name_B: "sf ''B'' = ''B'' \<Longrightarrow> make_safe_name sf ''B'' = ''b''"
  by (simp add: make_safe_name_def py_strip_B replace_space_def py_lower_B)

text \<open>
  C1.  For a \<open>sanitize_filename\<close> that leaves \<open>A\<close> and \<open>B\<close> as they are and image sources
  \<open>u1\<close>, \<open>u2\<close>, \<open>u4\<close> that are not empty, the sequence Heading A, Image u1, Image u2,
  Heading (empty), Image u3, Heading B, Image u4 gives two rows, for A and then B;
  \<open>u1\<close> and \<open>u2\<close> are saved as \<open>page_01.jpg\<close> and \<open>page_02.jpg\<close> in the folder of A; the
  empty heading leaves no current title, so \<open>u3\<close> is not saved; \<open>u4\<close> is saved as
  \<open>page_01.jpg\<close> in the folder of B.
\<close>

theorem example_sequence:
  assumes "sf ''A'' = ''A''" and "sf ''B'' = ''B''"
    and "u1 \<noteq> []" and "u2 \<noteq> []" and "u4 \<noteq> []"
  shows "\<exists>s4 s.
       scrape_nodes sf uj url key df init_state
         [H2 ''A'', Img (Some u1), Img (Some u2), H2 ''''] = Inr s4
     \<and> current_title s4 = None
     \<and> scrape_nodes sf uj url key df init_state
         [H2 ''A'', Img (Some u1), Img (Some u2), H2 '''', Img (Some u3), H2 ''B'', Img (Some u4)]
         = Inr s
     \<and> titles_for_doctor s = [(key, ''a'', ''a''), (key, ''b'', ''b'')]
     \<and> trace s =
         [MakeDirs (path_join df ''a''),
          DownloadImage (uj url u1) (path_join (path_join df ''a'') ''page_01.jpg''),
          DownloadImage (uj url u2) (path_join (path_join df ''a'') ''page_02.jpg''),
          MakeDirs (path_join df ''b''),
          DownloadImage (uj url u4) (path_join (path_join df ''b'') ''page_01.jpg'')]"
  using assms
  by (simp add: Let_def init_state_def py_strip_A py_strip_B py_strip_Nil py_lower_A py_lower_B
      make_safe_name_A make_safe_name_B page_filename_1 page_filename_2)

theorem example_sequence_witness:
  "sanitize_filename ''A'' = ''A'' \<and> sanitize_filename ''B'' = ''B''
   \<and> (\<exists>s4 s.
       scrape_nodes sanitize_filename (\<lambda>base u. base @ u) ''http://site/'' ''first_doctor''
         ''root/first_doctor'' init_state
         [H2 ''A'', Img (Some ''1.jpg''), Img (Some ''2.jpg''), H2 ''''] = Inr s4
     \<and> current_title s4 = None
     \<and> scrape_nodes sanitize_filename (\<lambda>base u. base @ u) ''http://site/'' ''first_doctor''
         ''root/first_doctor'' init_state
         [H2 ''A'', Img (Some ''1.jpg''), Img (Some ''2.jpg''), H2 '''', Img (Some ''3.jpg''),
          H2 ''B'', Img (Some ''4.jpg'')] = Inr s
     \<and> titles_for_doctor s = [(''first_doctor'', ''a'', ''a''), (''first_doctor'', ''b'', ''b'')]
     \<and> trace s =
         [MakeDirs ''root/first_doctor/a'',
          DownloadImage ''http://site/1.jpg'' ''root/first_doctor/a/page_01.jpg'',
          DownloadImage ''http://site/2.jpg'' ''root/first_doctor/a/page_02.jpg'',
          MakeDirs ''root/first_doctor/b'',
          DownloadImage ''http://site/4.jpg'' ''root/first_doctor/b/page_01.jpg''])"
proof -
  have a: "sanitize_filename ''A'' = ''A''" by code_simp
  have b: "sanitize_filename ''B'' = ''B''" by code_simp
  have u: "''1.jpg'' \<noteq> []" "''2.jpg'' \<noteq> []" "''4.jpg'' \<noteq> []" by simp_all
  from example_sequence[OF a b u, of "\<lambda>base u. base @ u" "''http://site/''" "''first_doctor''"
      "''root/first_doctor''" "''3.jpg''"]
  show ?thesis using a b by (simp add: path_join_def)
qed


section \<open>The sanitizer\<close>

lemma of_char_space: "(of_char c = (32::nat)) = (c = CHR '' '')"
proof -
  have "(of_char c = (of_char (CHR '' '') :: nat)) = (c = CHR '' '')"
    by (rule of_char_eq_iff)
  then show ?thesis by simp
qed

lemma of_char_py_lower_char:
  "(of_char (py_lower_char c) :: nat) =
     (let n = of_char c in
      if (65 \<le> n \<and> n \<le> 90) \<or> (192 \<le> n \<and> n \<le> 222 \<and> n \<noteq> 215) then n + 32 else n)"
  by (auto simp: py_lower_char_def Let_def)

lemma py_lower_char_idem: "py_lower_char (py_lower_char c) = py_lower_char c"
proof -
  have "(of_char (py_lower_char (py_lower_char c)) :: nat) = of_char (py_lower_char c)"
    by (simp add: of_char_py_lower_char Let_def)
  then show ?thesis by (simp only: of_char_eq_iff)
qed

lemma of_char_clean_char:
  "(of_char (clean_char c) :: nat) =
     (let n = of_char c in
      if n = 32 then 95
      else if (65 \<le> n \<and> n \<le> 90) \<or> (192 \<le> n \<and> n \<le> 222 \<and> n \<noteq> 215) then n + 32 else n)"
  by (auto simp: clean_char_def of_char_py_lower_char Let_def of_char_space)


lemma clean_char_not_space: "clean_char c \<noteq> CHR '' ''"
proof -
  have "(of_char (clean_char c) :: nat) \<noteq> 32"
    by (auto simp: of_char_clean_char Let_def)
  then show ?thesis by (simp add: of_char_space)
qed

lemma clean_char_lower: "py_lower_char (clean_char c) = clean_char c"
  by (simp add: clean_char_def py_lower_char_idem)


lemma make_safe_name_map: "make_safe_name sf x = map clean_char (sf (py_strip x))"
  by (simp add: make_safe_name_def replace_space_def py_lower_def clean_char_def comp_def)












text \<open>
  C9, as the code has it.  A safe name holds no space and is lower-case already, so the
  two steps of \<open>make_safe_name\<close> itself leave it as it is.  A second pass can therefore
  change a safe name only through \<open>strip\<close> or through the library: whenever the safe
  name of an input is left unchanged by \<open>strip\<close> and by \<open>sanitize_filename\<close>, sanitizing
  it again returns it.
\<close>

theorem make_safe_name_twice:
  "replace_space (make_safe_name sf x) = make_safe_name sf x
   \<and> py_lower (make_safe_name sf x) = make_safe_name sf x
   \<and> (py_strip (make_safe_name sf x) = make_safe_name sf x
        \<and> sf (make_safe_name sf x) = make_safe_name sf x \<longrightarrow>
      make_safe_name sf (make_safe_name sf x) = make_safe_name sf x)"
proof -
  let ?y = "make_safe_name sf x"
  have "\<forall>c \<in> set ?y. (if c = CHR '' '' then CHR ''_'' else c) = c"
    by (auto simp: make_safe_name_map clean_char_not_space)
  then have r: "replace_space ?y = ?y"
    unfolding replace_space_def by (intro map_idI) blast
  have "\<forall>c \<in> set ?y. py_lower_char c = c"
    by (auto simp: make_safe_name_map clean_char_lower)
  then have l: "py_lower ?y = ?y"
    unfolding py_lower_def by (intro map_idI) blast
  have t: "make_safe_name sf ?y = ?y" if "py_strip ?y = ?y" and "sf ?y = ?y"
  proof -
    have "make_safe_name sf ?y = py_lower (replace_space (sf (py_strip ?y)))"
      by (simp add: make_safe_name_def)
    also have "\<dots> = py_lower (replace_space ?y)"
      by (simp only: that)
    also have "\<dots> = ?y"
      by (simp only: r l)
    finally show ?thesis .
  qed
  from r l t show ?thesis by blast
qed

theorem make_safe_name_twice_witness:
  "make_safe_name sanitize_filename ''  My File?  '' = ''my_file''
   \<and> py_strip (make_safe_name sanitize_filename ''  My File?  '')
       = make_safe_name sanitize_filename ''  My File?  ''
   \<and> sanitize_filename (make_safe_name sanitize_filename ''  My File?  '')
       = make_safe_name sanitize_filename ''  My File?  ''
   \<and> make_safe_name sanitize_filename (make_safe_name sanitize_filename ''  My File?  '')
       = make_safe_name sanitize_filename ''  My File?  ''"
proof -
  have v: "make_safe_name sanitize_filename ''  My File?  '' = ''my_file''"
    by code_simp
  have h1: "py_strip (make_safe_name sanitize_filename ''  My File?  '')
              = make_safe_name sanitize_filename ''  My File?  ''"
    by code_simp
  have h2: "sanitize_filename (make_safe_name sanitize_filename ''  My File?  '')
              = make_safe_name sanitize_filename ''  My File?  ''"
    by code_simp
  have "make_safe_name sanitize_filename (make_safe_name sanitize_filename ''  My File?  '')
       = make_safe_name sanitize_filename ''  My File?  ''"
    using make_safe_name_twice[of sanitize_filename "''  My File?  ''"] h1 h2 by blast
  with v h1 h2 show ?thesis by blast
qed

text \<open>
  The claim as the specification states it fails at the letter a followed by NBSP and
  a question mark: the first pass removes the question mark and returns the letter
  with the NBSP, the second pass trims the NBSP.
\<close>

theorem make_safe_name_not_idempotent:
  "make_safe_name sanitize_filename [CHR ''a'', CHR 0xA0, CHR ''?''] = [CHR ''a'', CHR 0xA0]
   \<and> make_safe_name sanitize_filename
         (make_safe_name sanitize_filename [CHR ''a'', CHR 0xA0, CHR ''?'']) = ''a''"
  by code_simp

end
